theory Spec2Isabelle
  imports Complex_Main "HOL-Library.Sublist"
begin

section \<open>The image uploader widget: data model\<close>

text \<open>
  The controller of \<^verbatim>\<open>src/imageUploader.js\<close> (class \<^verbatim>\<open>ImageUploader\<close>) is embedded as
  pure functions on an explicit widget state. The DOM work (\<^verbatim>\<open>createPreview\<close>,
  \<^verbatim>\<open>updateUI\<close>, the style and progress elements) reads and writes presentation only and
  is left out. Every call of a configured lifecycle hook, and every \<^verbatim>\<open>console.error\<close>,
  is recorded as an event, in call order; the notification hooks are taken to return
  normally (the code ignores their results).

  A raw file handle carries the three properties the controller reads: \<^verbatim>\<open>file.name\<close>,
  \<^verbatim>\<open>file.size\<close> and \<^verbatim>\<open>file.type\<close>.
\<close>

record rawfile =
  name :: string
  size_f :: int
  type_f :: string

text \<open>
  The object built in \<^verbatim>\<open>addFiles\<close>: \<^verbatim>\<open>{file, id, preview, uploaded, progress}\<close>
  (\<^verbatim>\<open>preview\<close> is always \<^verbatim>\<open>null\<close> and omitted). Identifiers and percentages are
  JavaScript numbers.
\<close>

record fileObj =
  file_f :: rawfile
  id_f :: real
  uploaded :: bool
  progress :: real

text \<open>
  The messages handed to \<^verbatim>\<open>showError\<close>, one constructor per template string of the
  source, carrying the values the template interpolates:
  \<^verbatim>\<open>`${file.name}: Invalid file type`\<close>,
  \<^verbatim>\<open>`${file.name}: File too large (max ${maxSizeMB}MB)`\<close>,
  \<^verbatim>\<open>`Maximum ${this.options.maxFiles} files allowed`\<close> and
  \<^verbatim>\<open>`Upload failed: ${error.message}`\<close>.
\<close>

datatype message =
  InvalidFileType string
  | FileTooLarge string int
  | MaximumFilesAllowed int
  | UploadFailed string

datatype event =
  FilesAdded "rawfile list"
  | FileRemoved rawfile
  | Upload rawfile
  | UploadProgress rawfile real
  | UploadComplete "rawfile list"
  | Error message
  | ConsoleError message

text \<open>
  What one call \<^verbatim>\<open>onUpload(file, progressCallback)\<close> of the externally supplied upload
  function does, as far as the controller can see: the percentages it passes to the
  progress callback, in order, and whether the awaited promise resolves or rejects (a
  synchronous throw is caught by the same \<^verbatim>\<open>try\<close>) and with what reason. The
  \<^verbatim>\<open>catch\<close> of \<^verbatim>\<open>startUpload\<close> reads \<^verbatim>\<open>error.message\<close> of the reason: for
  \<^verbatim>\<open>undefined\<close> and \<^verbatim>\<open>null\<close> (\<^verbatim>\<open>Promise.reject()\<close>, \<^verbatim>\<open>throw undefined\<close>) that read
  throws a \<^verbatim>\<open>TypeError\<close>; for every other value it yields the text that the template
  interpolates (the message of an \<^verbatim>\<open>Error\<close>, the text \<^verbatim>\<open>undefined\<close> for a value
  without that property). The upload function may keep state of its own between calls (type
  \<open>'e\<close>), so that it can fail once and succeed on a retry. A call whose promise never
  settles never returns to the loop of \<^verbatim>\<open>startUpload\<close>; the runs described here are
  those in which every call settles.
\<close>

datatype reason = NoValue | WithMessage string

datatype settled = Resolved | Rejected reason

text \<open>An exception that leaves a method of the widget.\<close>

datatype exn = TypeError

type_synonym 'e upload_fn = "'e \<Rightarrow> rawfile \<Rightarrow> (real list \<times> settled) \<times> 'e"

text \<open>
  The options the controller logic reads. A notification hook is modelled by its
  presence (\<^verbatim>\<open>null\<close> is \<open>False\<close>); labels, theme and \<^verbatim>\<open>multiple\<close> are presentation.
  \<^verbatim>\<open>maxFiles\<close> and \<^verbatim>\<open>maxFileSize\<close> are integer-valued numbers; nothing in the source
  checks their sign.
\<close>

record 'e options =
  maxFiles :: int
  maxFileSize :: int
  acceptedTypes :: "string list"
  onFilesAdded :: bool
  onFileRemoved :: bool
  onUpload :: "'e upload_fn option"
  onUploadProgress :: bool
  onUploadComplete :: bool
  onError :: bool

text \<open>The mutable fields of the instance: \<^verbatim>\<open>this.files\<close> and \<^verbatim>\<open>this.uploading\<close>.\<close>

record uploader =
  files :: "fileObj list"
  uploading :: bool

definition init_uploader :: uploader where
  "init_uploader = \<lparr>files = [], uploading = False\<rparr>"

section \<open>Intake and validation\<close>

definition showError :: "'e options \<Rightarrow> message \<Rightarrow> event list" where
  "showError opts msg = (if onError opts then [Error msg] else [ConsoleError msg])"

definition validateFile :: "'e options \<Rightarrow> rawfile \<Rightarrow> bool \<times> event list" where
  "validateFile opts f =
     (if type_f f \<notin> set (acceptedTypes opts)
        then (False, showError opts (InvalidFileType (name f)))
      else if size_f f > maxFileSize opts
        then (False, showError opts (FileTooLarge (name f) (maxFileSize opts)))
      else (True, []))"

text \<open>\<^verbatim>\<open>newFiles.filter((file) => this.validateFile(file))\<close>, with the error reports
  of the callback collected in call order.\<close>

fun filter_validateFile :: "'e options \<Rightarrow> rawfile list \<Rightarrow> rawfile list \<times> event list" where
  "filter_validateFile opts [] = ([], [])"
| "filter_validateFile opts (f # fs) =
     (case validateFile opts f of (ok, ev) \<Rightarrow>
        (case filter_validateFile opts fs of (vs, evs) \<Rightarrow>
           (if ok then f # vs else vs, ev @ evs)))"

text \<open>
  \<^verbatim>\<open>Array.prototype.splice(start)\<close> with one argument, as used on \<^verbatim>\<open>validFiles\<close>:
  a negative \<^verbatim>\<open>start\<close> counts from the end, the start index is clamped to the array,
  and everything from it to the end is removed. The result is the array that is left.
\<close>

definition splice_f :: "'a list \<Rightarrow> int \<Rightarrow> 'a list" where
  "splice_f xs start =
     (let len = int (length xs);
          actualStart = (if start < 0 then max (len + start) 0 else min start len)
      in take (nat actualStart) xs)"

text \<open>
  The \<^verbatim>\<open>forEach\<close> of \<^verbatim>\<open>addFiles\<close>: each accepted file is wrapped and pushed. The value
  of \<^verbatim>\<open>Date.now() + Math.random()\<close> in the \<open>k\<close>-th iteration is supplied from outside
  as \<open>idgen k\<close>.
\<close>

fun push_files :: "(nat \<Rightarrow> real) \<Rightarrow> nat \<Rightarrow> fileObj list \<Rightarrow> rawfile list \<Rightarrow> fileObj list" where
  "push_files idgen k fs [] = fs"
| "push_files idgen k fs (f # rest) =
     push_files idgen (Suc k)
       (fs @ [\<lparr>file_f = f, id_f = idgen k, uploaded = False, progress = 0\<rparr>]) rest"

definition addFiles ::
  "'e options \<Rightarrow> (nat \<Rightarrow> real) \<Rightarrow> uploader \<Rightarrow> rawfile list \<Rightarrow> uploader \<times> event list" where
  "addFiles opts idgen s newFiles =
     (case filter_validateFile opts newFiles of (validFiles, ev1) \<Rightarrow>
        (let over = int (length (files s)) + int (length validFiles) > maxFiles opts;
             ev2 = (if over then showError opts (MaximumFilesAllowed (maxFiles opts)) else []);
             validFiles' = (if over
                            then splice_f validFiles (maxFiles opts - int (length (files s)))
                            else validFiles);
             s' = s\<lparr>files := push_files idgen 0 (files s) validFiles'\<rparr>;
             ev3 = (if onFilesAdded opts \<and> length validFiles' > 0
                    then [FilesAdded validFiles'] else [])
         in (s', ev1 @ ev2 @ ev3)))"

text \<open>A sequence of intake operations, each with its batch and its identifier source.\<close>

fun addFiles_seq ::
  "'e options \<Rightarrow> uploader \<Rightarrow> ((nat \<Rightarrow> real) \<times> rawfile list) list \<Rightarrow> uploader" where
  "addFiles_seq opts s [] = s"
| "addFiles_seq opts s ((idgen, batch) # rest) =
     addFiles_seq opts (fst (addFiles opts idgen s batch)) rest"

section \<open>Removal, clearing and the query interface\<close>

text \<open>\<^verbatim>\<open>Array.prototype.findIndex\<close>: the index of the first match, or \<open>-1\<close>.\<close>

fun findIndex :: "('a \<Rightarrow> bool) \<Rightarrow> 'a list \<Rightarrow> int" where
  "findIndex p [] = - 1"
| "findIndex p (x # xs) =
     (if p x then 0 else (let r = findIndex p xs in if r = - 1 then - 1 else r + 1))"

definition removeFile :: "'e options \<Rightarrow> uploader \<Rightarrow> real \<Rightarrow> uploader \<times> event list" where
  "removeFile opts s fileId =
     (let index = findIndex (\<lambda>f. id_f f = fileId) (files s)
      in if index > - 1
         then (let fo = files s ! nat index;
                   s' = s\<lparr>files := take (nat index) (files s) @ drop (Suc (nat index)) (files s)\<rparr>
               in (s', if onFileRemoved opts then [FileRemoved (file_f fo)] else []))
         else (s, []))"

definition clear :: "uploader \<Rightarrow> uploader \<times> event list" where
  "clear s = (s\<lparr>files := []\<rparr>, [])"

definition getFiles :: "uploader \<Rightarrow> rawfile list" where
  "getFiles s = map file_f (files s)"

definition getUploadedFiles :: "uploader \<Rightarrow> rawfile list" where
  "getUploadedFiles s = map file_f (filter uploaded (files s))"

section \<open>Upload orchestration\<close>

text \<open>
  The closure \<^verbatim>\<open>progressCallback\<close> of \<^verbatim>\<open>uploadFile\<close>: it stores the value in the
  entry and forwards it to \<^verbatim>\<open>onUploadProgress\<close> when that hook is configured.
\<close>

definition progressCallback :: "'e options \<Rightarrow> fileObj \<Rightarrow> real \<Rightarrow> fileObj \<times> event list" where
  "progressCallback opts fileObj percent =
     (fileObj\<lparr>progress := percent\<rparr>,
      if onUploadProgress opts then [UploadProgress (file_f fileObj) percent] else [])"

text \<open>The calls of the progress callback that one run of the upload function makes.\<close>

fun progress_calls :: "'e options \<Rightarrow> fileObj \<Rightarrow> real list \<Rightarrow> fileObj \<times> event list" where
  "progress_calls opts fileObj [] = (fileObj, [])"
| "progress_calls opts fileObj (percent # rest) =
     (case progressCallback opts fileObj percent of (fileObj', ev) \<Rightarrow>
        (case progress_calls opts fileObj' rest of (fileObj'', evs) \<Rightarrow> (fileObj'', ev @ evs)))"

text \<open>
  \<^verbatim>\<open>uploadFile(fileObj)\<close>: the upload function is called with the raw handle; when it
  resolves the entry is marked uploaded, when it rejects the error is thrown again
  (\<open>Some\<close> of the reason) and the mark is not set. The entry is returned as mutated.
\<close>

definition uploadFile ::
  "'e options \<Rightarrow> 'e upload_fn \<Rightarrow> fileObj \<Rightarrow> 'e \<Rightarrow> reason option \<times> fileObj \<times> event list \<times> 'e" where
  "uploadFile opts up fileObj env =
     (case up env (file_f fileObj) of ((percents, outcome), env') \<Rightarrow>
        (case progress_calls opts fileObj percents of (fileObj', ev) \<Rightarrow>
           (case outcome of
              Resolved \<Rightarrow> (None, fileObj'\<lparr>uploaded := True\<rparr>, Upload (file_f fileObj) # ev, env')
            | Rejected err \<Rightarrow> (Some err, fileObj', Upload (file_f fileObj) # ev, env'))))"

text \<open>
  The loop of \<^verbatim>\<open>startUpload\<close>, \<^verbatim>\<open>for (let i = 0; i < this.files.length; i++)\<close>, from
  index \<open>i\<close> on. An error thrown by \<^verbatim>\<open>uploadFile\<close> leaves the loop (first component
  \<open>Some\<close>). The entry is an object of the array, so its mutation is written back at
  index \<open>i\<close>. No other widget operation is interleaved at the \<^verbatim>\<open>await\<close>.
\<close>

function uploadLoop ::
  "'e options \<Rightarrow> 'e upload_fn \<Rightarrow> nat \<Rightarrow> uploader \<Rightarrow> 'e \<Rightarrow> reason option \<times> uploader \<times> event list \<times> 'e" where
  "uploadLoop opts up i s env =
     (if i < length (files s)
      then (let fileObj = files s ! i
            in if uploaded fileObj then uploadLoop opts up (Suc i) s env
               else (case uploadFile opts up fileObj env of
                       (Some err, fileObj', ev, env') \<Rightarrow>
                         (Some err, s\<lparr>files := (files s)[i := fileObj']\<rparr>, ev, env')
                     | (None, fileObj', ev, env') \<Rightarrow>
                         (case uploadLoop opts up (Suc i) (s\<lparr>files := (files s)[i := fileObj']\<rparr>) env' of
                            (r, s', ev', env'') \<Rightarrow> (r, s', ev @ ev', env''))))
      else (None, s, [], env))"
  by pat_completeness auto
termination
  by (relation "measure (\<lambda>(opts, up, i, s, env). length (files s) - i)") auto

text \<open>
  \<^verbatim>\<open>startUpload\<close>: the guard, the flag, the loop inside \<^verbatim>\<open>try\<close>, the completion hook
  after a loop without error, \<^verbatim>\<open>showError\<close> in \<^verbatim>\<open>catch\<close>, and the flag reset in
  \<^verbatim>\<open>finally\<close>. The argument of \<^verbatim>\<open>showError\<close> is evaluated first: when the caught
  reason is \<^verbatim>\<open>undefined\<close> or \<^verbatim>\<open>null\<close>, reading \<^verbatim>\<open>error.message\<close> throws inside
  \<^verbatim>\<open>catch\<close>, \<^verbatim>\<open>showError\<close> is not called, \<^verbatim>\<open>finally\<close> still runs, and the
  \<^verbatim>\<open>TypeError\<close> leaves \<^verbatim>\<open>startUpload\<close> (last component of the result; \<open>None\<close> when
  the method returns normally).
\<close>

definition startUpload ::
  "'e options \<Rightarrow> uploader \<Rightarrow> 'e \<Rightarrow> uploader \<times> event list \<times> 'e \<times> exn option" where
  "startUpload opts s env =
     (case onUpload opts of
        None \<Rightarrow> (s, [], env, None)
      | Some up \<Rightarrow>
          if uploading s then (s, [], env, None)
          else (case uploadLoop opts up 0 (s\<lparr>uploading := True\<rparr>) env of
                  (None, s', ev, env') \<Rightarrow>
                    (s'\<lparr>uploading := False\<rparr>,
                     ev @ (if onUploadComplete opts
                           then [UploadComplete (map file_f (files s'))] else []),
                     env', None)
                | (Some (WithMessage msg), s', ev, env') \<Rightarrow>
                    (s'\<lparr>uploading := False\<rparr>, ev @ showError opts (UploadFailed msg), env', None)
                | (Some NoValue, s', ev, env') \<Rightarrow>
                    (s'\<lparr>uploading := False\<rparr>, ev, env', Some TypeError)))"

section \<open>Observations on the trace of hook calls\<close>

text \<open>The raw handles the upload function was called with, in call order.\<close>

fun upload_calls :: "event list \<Rightarrow> rawfile list" where
  "upload_calls [] = []"
| "upload_calls (Upload f # evs) = f # upload_calls evs"
| "upload_calls (_ # evs) = upload_calls evs"

text \<open>The arguments of the calls of \<^verbatim>\<open>onFilesAdded\<close>, \<^verbatim>\<open>onFileRemoved\<close>,
  \<^verbatim>\<open>onUploadProgress\<close> and \<^verbatim>\<open>onUploadComplete\<close>, in call order.\<close>

fun files_added :: "event list \<Rightarrow> rawfile list list" where
  "files_added [] = []"
| "files_added (FilesAdded fs # evs) = fs # files_added evs"
| "files_added (_ # evs) = files_added evs"

fun files_removed :: "event list \<Rightarrow> rawfile list" where
  "files_removed [] = []"
| "files_removed (FileRemoved f # evs) = f # files_removed evs"
| "files_removed (_ # evs) = files_removed evs"

fun progress_reports :: "event list \<Rightarrow> (rawfile \<times> real) list" where
  "progress_reports [] = []"
| "progress_reports (UploadProgress f p # evs) = (f, p) # progress_reports evs"
| "progress_reports (_ # evs) = progress_reports evs"

fun uploads_complete :: "event list \<Rightarrow> rawfile list list" where
  "uploads_complete [] = []"
| "uploads_complete (UploadComplete fs # evs) = fs # uploads_complete evs"
| "uploads_complete (_ # evs) = uploads_complete evs"

text \<open>The messages passed to \<^verbatim>\<open>showError\<close>, whether they went to \<^verbatim>\<open>onError\<close> or to
  \<^verbatim>\<open>console.error\<close>.\<close>

fun error_reports :: "event list \<Rightarrow> message list" where
  "error_reports [] = []"
| "error_reports (Error m # evs) = m # error_reports evs"
| "error_reports (ConsoleError m # evs) = m # error_reports evs"
| "error_reports (_ # evs) = error_reports evs"

section \<open>The upload loop on the entries ahead of the index\<close>

text \<open>
  The same loop as \<open>uploadLoop\<close>, by recursion on the entries from index \<open>i\<close> on. It is
  shown below to compute what \<open>uploadLoop\<close> computes, and carries the inductions.
\<close>

fun upload_entries ::
  "'e options \<Rightarrow> 'e upload_fn \<Rightarrow> fileObj list \<Rightarrow> 'e \<Rightarrow> reason option \<times> fileObj list \<times> event list \<times> 'e" where
  "upload_entries opts up [] env = (None, [], [], env)"
| "upload_entries opts up (fo # rest) env =
     (if uploaded fo
      then (case upload_entries opts up rest env of
              (r, rest', ev, env') \<Rightarrow> (r, fo # rest', ev, env'))
      else (case uploadFile opts up fo env of
              (Some err, fo', ev, env') \<Rightarrow> (Some err, fo' # rest, ev, env')
            | (None, fo', ev, env') \<Rightarrow>
                (case upload_entries opts up rest env' of
                   (r, rest', ev', env'') \<Rightarrow> (r, fo' # rest', ev @ ev', env''))))"

section \<open>Example configuration, files and upload functions\<close>

text \<open>
  A configuration with a maximum of two files of at most 10 MB, every hook configured,
  and no upload function yet; files of 1 MB and of 20 MB.
\<close>

definition jpeg_opts :: "nat options" where
  "jpeg_opts = \<lparr>maxFiles = 2, maxFileSize = 10485760,
     acceptedTypes = [''image/jpeg'', ''image/png''],
     onFilesAdded = True, onFileRemoved = True, onUpload = None,
     onUploadProgress = True, onUploadComplete = True, onError = True\<rparr>"

definition jpeg :: "string \<Rightarrow> rawfile" where
  "jpeg n = \<lparr>name = n, size_f = 1048576, type_f = ''image/jpeg''\<rparr>"

definition big_jpeg :: rawfile where
  "big_jpeg = \<lparr>name = ''big.jpg'', size_f = 20971520, type_f = ''image/jpeg''\<rparr>"

definition big_bmp :: rawfile where
  "big_bmp = \<lparr>name = ''big.bmp'', size_f = 20971520, type_f = ''image/bmp''\<rparr>"

definition entry :: "string \<Rightarrow> real \<Rightarrow> bool \<Rightarrow> fileObj" where
  "entry n i u = \<lparr>file_f = jpeg n, id_f = i, uploaded = u, progress = 0\<rparr>"

definition three_files :: uploader where
  "three_files = \<lparr>files = [entry ''a'' 1 False, entry ''b'' 2 False, entry ''c'' 3 False],
     uploading = False\<rparr>"

text \<open>
  An upload function that reports 50 and 100 and resolves, except that its first call
  for the file named \<open>b\<close> reports 50 and rejects; it counts its failures.
\<close>

definition flaky_upload :: "nat upload_fn" where
  "flaky_upload env f =
     (if name f = ''b'' \<and> env = 0
      then (([50], Rejected (WithMessage ''network down'')), Suc env)
      else (([50, 100], Resolved), env))"

definition flaky_opts :: "nat options" where
  "flaky_opts = jpeg_opts\<lparr>maxFiles := 10, onUpload := Some flaky_upload\<rparr>"

text \<open>
  An upload function that resolves, except that for the file named \<open>b\<close> it rejects
  without a reason, as \<^verbatim>\<open>Promise.reject()\<close> does.
\<close>

definition bare_reject_upload :: "nat upload_fn" where
  "bare_reject_upload env f =
     (if name f = ''b'' then (([50], Rejected NoValue), env)
      else (([50, 100], Resolved), env))"

definition bare_reject_opts :: "nat options" where
  "bare_reject_opts = jpeg_opts\<lparr>maxFiles := 10, onUpload := Some bare_reject_upload\<rparr>"

text \<open>A configuration whose maximum file count is negative, and a source of identifiers.\<close>

definition negative_opts :: "nat options" where
  "negative_opts = jpeg_opts\<lparr>maxFiles := - 1\<rparr>"

definition count_ids :: "nat \<Rightarrow> real" where
  "count_ids k = real k"

text \<open>An upload function that reports 150 percent before it resolves.\<close>

definition overshoot_upload :: "nat upload_fn" where
  "overshoot_upload env f = (([150], Resolved), env)"

definition overshoot_opts :: "nat options" where
  "overshoot_opts = jpeg_opts\<lparr>onUpload := Some overshoot_upload\<rparr>"

text \<open>The widget after one 1 MB JPEG has been taken in under that configuration.\<close>

definition one_file :: uploader where
  "one_file = fst (addFiles overshoot_opts (\<lambda>k. real k) init_uploader [jpeg ''a''])"

section \<open>The trace observations distribute over concatenation\<close>

declare uploadLoop.simps [simp del]

lemma upload_calls_append [simp]: "upload_calls (xs @ ys) = upload_calls xs @ upload_calls ys"
  by (induction xs rule: upload_calls.induct) simp_all

lemma files_added_append [simp]: "files_added (xs @ ys) = files_added xs @ files_added ys"
  by (induction xs rule: files_added.induct) simp_all

lemma files_removed_append [simp]: "files_removed (xs @ ys) = files_removed xs @ files_removed ys"
  by (induction xs rule: files_removed.induct) simp_all

lemma progress_reports_append [simp]:
  "progress_reports (xs @ ys) = progress_reports xs @ progress_reports ys"
  by (induction xs rule: progress_reports.induct) simp_all

lemma uploads_complete_append [simp]:
  "uploads_complete (xs @ ys) = uploads_complete xs @ uploads_complete ys"
  by (induction xs rule: uploads_complete.induct) simp_all

lemma error_reports_append [simp]: "error_reports (xs @ ys) = error_reports xs @ error_reports ys"
  by (induction xs rule: error_reports.induct) simp_all

lemma showError_obs [simp]:
  "error_reports (showError opts m) = [m]"
  "upload_calls (showError opts m) = []"
  "files_added (showError opts m) = []"
  "files_removed (showError opts m) = []"
  "progress_reports (showError opts m) = []"
  "uploads_complete (showError opts m) = []"
  by (simp_all add: showError_def)

section \<open>Intake: validation, capacity, arrival order\<close>

lemma validateFile_fst:
  "fst (validateFile opts f) \<longleftrightarrow> type_f f \<in> set (acceptedTypes opts) \<and> size_f f \<le> maxFileSize opts"
  by (auto simp: validateFile_def)

lemma validateFile_obs [simp]:
  "upload_calls (snd (validateFile opts f)) = []"
  "files_added (snd (validateFile opts f)) = []"
  "files_removed (snd (validateFile opts f)) = []"
  "progress_reports (snd (validateFile opts f)) = []"
  "uploads_complete (snd (validateFile opts f)) = []"
  by (simp_all add: validateFile_def)

lemma filter_validateFile_fst:
  "fst (filter_validateFile opts fs) =
     filter (\<lambda>f. type_f f \<in> set (acceptedTypes opts) \<and> size_f f \<le> maxFileSize opts) fs"
  by (induction fs) (auto simp: validateFile_fst [symmetric] split: prod.splits)

lemma filter_validateFile_snd:
  "snd (filter_validateFile opts fs) = concat (map (\<lambda>f. snd (validateFile opts f)) fs)"
  by (induction fs) (auto split: prod.splits)

lemma push_files_eq:
  "push_files idgen k fs vs =
     fs @ map (\<lambda>(j, f). \<lparr>file_f = f, id_f = idgen j, uploaded = False, progress = 0\<rparr>)
            (zip [k ..< k + length vs] vs)"
proof (induction vs arbitrary: k fs)
  case Nil
  show ?case by simp
next
  case (Cons v vs)
  have "[k ..< k + Suc (length vs)] = k # [Suc k ..< k + Suc (length vs)]"
    by (rule upt_conv_Cons) simp
  then show ?case using Cons.IH [of "Suc k"] by simp
qed

lemma splice_f_take:
  "splice_f xs start = take (nat (if start < 0 then int (length xs) + start else start)) xs"
  by (auto simp: splice_f_def Let_def max_def min_def)

lemma addFiles_eq:
  "addFiles opts idgen s newFiles =
     (let valid = filter (\<lambda>f. type_f f \<in> set (acceptedTypes opts) \<and> size_f f \<le> maxFileSize opts) newFiles;
          over = int (length (files s)) + int (length valid) > maxFiles opts;
          acc = (if over then splice_f valid (maxFiles opts - int (length (files s))) else valid)
      in (s\<lparr>files := push_files idgen 0 (files s) acc\<rparr>,
          concat (map (\<lambda>f. snd (validateFile opts f)) newFiles)
          @ (if over then showError opts (MaximumFilesAllowed (maxFiles opts)) else [])
          @ (if onFilesAdded opts \<and> acc \<noteq> [] then [FilesAdded acc] else [])))"
proof -
  obtain vs ev where fv: "filter_validateFile opts newFiles = (vs, ev)"
    by (cases "filter_validateFile opts newFiles")
  have vs: "vs = filter (\<lambda>f. type_f f \<in> set (acceptedTypes opts) \<and> size_f f \<le> maxFileSize opts) newFiles"
    using filter_validateFile_fst [of opts newFiles] fv by simp
  have ev: "ev = concat (map (\<lambda>f. snd (validateFile opts f)) newFiles)"
    using filter_validateFile_snd [of opts newFiles] fv by simp
  show ?thesis
    unfolding addFiles_def fv vs [symmetric] ev [symmetric] by (simp add: Let_def)
qed

lemma error_reports_validate_concat:
  "f \<in> set fs \<Longrightarrow> m \<in> set (error_reports (snd (validateFile opts f)))
   \<Longrightarrow> m \<in> set (error_reports (concat (map (\<lambda>f. snd (validateFile opts f)) fs)))"
  by (induction fs) auto

lemma push_files_new:
  "\<exists>new. push_files idgen k fs vs = fs @ new \<and> map file_f new = vs
         \<and> (\<forall>x \<in> set new. \<not> uploaded x \<and> progress x = 0)"
proof (induction vs arbitrary: k fs)
  case Nil
  show ?case by simp
next
  case (Cons v vs)
  let ?e = "\<lparr>file_f = v, id_f = idgen k, uploaded = False, progress = 0\<rparr>"
  obtain new where new: "push_files idgen (Suc k) (fs @ [?e]) vs = (fs @ [?e]) @ new"
    "map file_f new = vs" "\<forall>x \<in> set new. \<not> uploaded x \<and> progress x = 0"
    using Cons.IH [of "Suc k" "fs @ [?e]"] by blast
  show ?case
    by (rule exI [of _ "?e # new"]) (use new in simp)
qed

lemma addFiles_fst:
  "fst (addFiles opts idgen s newFiles) =
     s\<lparr>files := push_files idgen 0 (files s)
        (let valid = filter (\<lambda>f. type_f f \<in> set (acceptedTypes opts) \<and> size_f f \<le> maxFileSize opts) newFiles
         in if int (length (files s)) + int (length valid) > maxFiles opts
            then splice_f valid (maxFiles opts - int (length (files s))) else valid)\<rparr>"
  by (simp add: addFiles_eq Let_def)

text \<open>
  Claim C4. A file of an intake batch whose declared size exceeds \<open>maxFileSize\<close>, or whose
  declared type is not among \<open>acceptedTypes\<close>, is not among the entries that
  \<open>addFiles\<close> appends, and \<open>showError\<close> is called with a message for that file: the
  invalid-type message when the type is not accepted, the too-large message otherwise.
\<close>

theorem invalid_file_rejected:
  assumes "f \<in> set newFiles"
    and "size_f f > maxFileSize opts \<or> type_f f \<notin> set (acceptedTypes opts)"
  shows "(\<exists>new. files (fst (addFiles opts idgen s newFiles)) = files s @ new
               \<and> f \<notin> set (map file_f new))
       \<and> (if type_f f \<notin> set (acceptedTypes opts) then InvalidFileType (name f)
          else FileTooLarge (name f) (maxFileSize opts))
         \<in> set (error_reports (snd (addFiles opts idgen s newFiles)))"
proof
  define valid where "valid = filter (\<lambda>f. type_f f \<in> set (acceptedTypes opts) \<and> size_f f \<le> maxFileSize opts) newFiles"
  define acc where "acc = (if int (length (files s)) + int (length valid) > maxFiles opts
      then splice_f valid (maxFiles opts - int (length (files s))) else valid)"
  have "set acc \<subseteq> set valid"
    by (auto simp: acc_def splice_f_take dest: in_set_takeD)
  moreover have "f \<notin> set valid"
    using assms(2) by (auto simp: valid_def)
  ultimately have nf: "f \<notin> set acc" by blast
  have fs: "files (fst (addFiles opts idgen s newFiles)) = push_files idgen 0 (files s) acc"
    by (simp add: addFiles_fst Let_def acc_def valid_def)
  obtain new where "push_files idgen 0 (files s) acc = files s @ new" "map file_f new = acc"
    using push_files_new [of idgen 0 "files s" acc] by blast
  with nf fs show "\<exists>new. files (fst (addFiles opts idgen s newFiles)) = files s @ new
               \<and> f \<notin> set (map file_f new)"
    by auto
next
  let ?m = "if type_f f \<notin> set (acceptedTypes opts) then InvalidFileType (name f)
          else FileTooLarge (name f) (maxFileSize opts)"
  have "?m \<in> set (error_reports (snd (validateFile opts f)))"
    using assms(2) by (auto simp: validateFile_def)
  then have "?m \<in> set (error_reports (concat (map (\<lambda>f. snd (validateFile opts f)) newFiles)))"
    using assms(1) by (rule error_reports_validate_concat [rotated])
  then show "?m \<in> set (error_reports (snd (addFiles opts idgen s newFiles)))"
    by (simp add: addFiles_eq Let_def)
qed

theorem invalid_file_rejected_witness:
  "big_jpeg \<in> set [big_jpeg]
   \<and> (size_f big_jpeg > maxFileSize jpeg_opts \<or> type_f big_jpeg \<notin> set (acceptedTypes jpeg_opts))
   \<and> addFiles jpeg_opts (\<lambda>k. real k) init_uploader [big_jpeg]
       = (init_uploader, [Error (FileTooLarge ''big.jpg'' 10485760)])
   \<and> FileTooLarge ''big.jpg'' 10485760
       \<in> set (error_reports (snd (addFiles jpeg_opts (\<lambda>k. real k) init_uploader [big_jpeg])))"
  using invalid_file_rejected [of big_jpeg "[big_jpeg]" jpeg_opts "\<lambda>k. real k" init_uploader]
  by (simp add: jpeg_opts_def big_jpeg_def addFiles_def validateFile_def showError_def
      init_uploader_def splice_f_def)

lemma addFiles_length_le:
  assumes "int (length (files s)) \<le> maxFiles opts"
  shows "int (length (files (fst (addFiles opts idgen s newFiles)))) \<le> maxFiles opts"
proof -
  define valid where "valid = filter (\<lambda>f. type_f f \<in> set (acceptedTypes opts) \<and> size_f f \<le> maxFileSize opts) newFiles"
  define acc where "acc = (if int (length (files s)) + int (length valid) > maxFiles opts
      then splice_f valid (maxFiles opts - int (length (files s))) else valid)"
  have fs: "files (fst (addFiles opts idgen s newFiles)) = push_files idgen 0 (files s) acc"
    by (simp add: addFiles_fst Let_def acc_def valid_def)
  have "int (length acc) \<le> maxFiles opts - int (length (files s))"
    using assms by (auto simp: acc_def splice_f_take)
  then show ?thesis
    unfolding fs push_files_eq by simp
qed

lemma addFiles_seq_length_le:
  "int (length (files s)) \<le> maxFiles opts
   \<Longrightarrow> int (length (files (addFiles_seq opts s ops))) \<le> maxFiles opts"
proof (induction ops arbitrary: s)
  case Nil
  then show ?case by simp
next
  case (Cons op ops)
  obtain idgen batch where op: "op = (idgen, batch)" by (cases op)
  show ?case
    unfolding op addFiles_seq.simps
    by (rule Cons.IH) (rule addFiles_length_le [OF Cons.prems])
qed

text \<open>
  Claim C2, as amended. Starting from the empty widget, after any sequence of
  \<open>addFiles\<close> calls under one configuration whose \<open>maxFiles\<close> is not negative, the
  number of tracked entries is at most \<open>maxFiles\<close>.
\<close>

theorem tracked_count_bounded:
  assumes "0 \<le> maxFiles opts"
  shows "int (length (files (addFiles_seq opts init_uploader ops))) \<le> maxFiles opts"
  by (rule addFiles_seq_length_le) (use assms in \<open>simp add: init_uploader_def\<close>)

theorem tracked_count_bounded_witness:
  "0 \<le> maxFiles jpeg_opts
   \<and> length (files (addFiles_seq jpeg_opts init_uploader
        [(\<lambda>k. real k, [jpeg ''a'', big_jpeg, jpeg ''b'']), (\<lambda>k. real k + 10, [jpeg ''c''])])) = 2
   \<and> int (length (files (addFiles_seq jpeg_opts init_uploader
        [(\<lambda>k. real k, [jpeg ''a'', big_jpeg, jpeg ''b'']), (\<lambda>k. real k + 10, [jpeg ''c''])])))
       \<le> maxFiles jpeg_opts"
  using tracked_count_bounded [of jpeg_opts
      "[(\<lambda>k. real k, [jpeg ''a'', big_jpeg, jpeg ''b'']), (\<lambda>k. real k + 10, [jpeg ''c''])]"]
  by (simp add: jpeg_opts_def big_jpeg_def jpeg_def addFiles_def validateFile_def showError_def
      init_uploader_def splice_f_def)

text \<open>
  Claim C2 as first stated, for every configuration, does not hold. Nothing checks the
  sign of \<open>maxFiles\<close>, and \<^verbatim>\<open>splice\<close> with a negative start counts from the end of the
  batch: with \<open>maxFiles = -1\<close>, a batch of three valid files loses its last file only,
  and two entries are tracked.
\<close>

theorem tracked_count_negative_maximum_counterexample:
  "maxFiles negative_opts = - 1
   \<and> length (files (addFiles_seq negative_opts init_uploader
        [(count_ids, [jpeg ''a'', jpeg ''b'', jpeg ''c''])])) = 2
   \<and> \<not> int (length (files (addFiles_seq negative_opts init_uploader
        [(count_ids, [jpeg ''a'', jpeg ''b'', jpeg ''c''])]))) \<le> maxFiles negative_opts"
  by (simp add: negative_opts_def jpeg_opts_def jpeg_def addFiles_def validateFile_def
      showError_def init_uploader_def splice_f_def)






text \<open>
  Claim C10. A file whose type is not accepted and whose size is also over the maximum
  gets one error report, the invalid-type one: \<open>validateFile\<close> checks the type first
  and returns at the first violation, so the too-large message is not reported for it,
  and no file gets more than one report from validation.
\<close>

theorem invalid_type_reported_once:
  assumes "type_f f \<notin> set (acceptedTypes opts)" and "size_f f > maxFileSize opts"
  shows "validateFile opts f = (False, showError opts (InvalidFileType (name f)))
       \<and> error_reports (snd (validateFile opts f)) = [InvalidFileType (name f)]
       \<and> snd (addFiles opts idgen s [f])
           = showError opts (InvalidFileType (name f))
             @ (if int (length (files s)) > maxFiles opts
                then showError opts (MaximumFilesAllowed (maxFiles opts)) else [])
       \<and> FileTooLarge (name f) (maxFileSize opts)
           \<notin> set (error_reports (snd (addFiles opts idgen s [f])))
       \<and> (\<forall>g. length (error_reports (snd (validateFile opts g)))
                = (if fst (validateFile opts g) then 0 else 1))"
  using assms by (simp add: addFiles_eq Let_def validateFile_def splice_f_take)

theorem invalid_type_reported_once_witness:
  "type_f big_bmp \<notin> set (acceptedTypes jpeg_opts) \<and> size_f big_bmp > maxFileSize jpeg_opts
   \<and> validateFile jpeg_opts big_bmp = (False, [Error (InvalidFileType ''big.bmp'')])
   \<and> addFiles jpeg_opts (\<lambda>k. real k) init_uploader [big_bmp]
       = (init_uploader, [Error (InvalidFileType ''big.bmp'')])"
  using invalid_type_reported_once [of big_bmp jpeg_opts "\<lambda>k. real k" init_uploader]
  by (simp add: jpeg_opts_def big_bmp_def addFiles_def validateFile_def showError_def
      init_uploader_def splice_f_def)

section \<open>Removal and clearing\<close>

lemma findIndex_absent:
  "\<forall>x \<in> set xs. \<not> p x \<Longrightarrow> findIndex p xs = - 1"
  by (induction xs) simp_all

lemma findIndex_first:
  "\<forall>y \<in> set pre. \<not> p y \<Longrightarrow> p x \<Longrightarrow> findIndex p (pre @ x # post) = int (length pre)"
  by (induction pre) (simp_all add: Let_def)

text \<open>
  Claim C6. \<open>removeFile\<close> with an identifier that some tracked entry has removes the
  first entry with that identifier and nothing else: the count drops by one, the other
  entries keep their order, and \<open>onFileRemoved\<close>, when configured, is called once with
  the removed entry's raw handle. With an identifier no entry has, nothing changes and
  no hook is called.
\<close>

theorem removeFile_first_match:
  "((\<exists>x \<in> set (files s). id_f x = fileId) \<longrightarrow>
      (\<exists>pre fo post. files s = pre @ fo # post \<and> id_f fo = fileId
         \<and> (\<forall>x \<in> set pre. id_f x \<noteq> fileId)
         \<and> removeFile opts s fileId
             = (s\<lparr>files := pre @ post\<rparr>, if onFileRemoved opts then [FileRemoved (file_f fo)] else []))
      \<and> Suc (length (files (fst (removeFile opts s fileId)))) = length (files s))
   \<and> ((\<forall>x \<in> set (files s). id_f x \<noteq> fileId) \<longrightarrow> removeFile opts s fileId = (s, []))"
proof (intro conjI impI)
  assume "\<exists>x \<in> set (files s). id_f x = fileId"
  then obtain pre fo post where sp: "files s = pre @ fo # post" "id_f fo = fileId"
      "\<forall>x \<in> set pre. id_f x \<noteq> fileId"
    using split_list_first_prop [of "files s" "\<lambda>x. id_f x = fileId"] by blast
  have ix: "findIndex (\<lambda>f. id_f f = fileId) (files s) = int (length pre)"
    unfolding sp(1) by (rule findIndex_first) (use sp in auto)
  have rm: "removeFile opts s fileId
      = (s\<lparr>files := pre @ post\<rparr>, if onFileRemoved opts then [FileRemoved (file_f fo)] else [])"
    unfolding removeFile_def ix by (simp add: sp(1) Let_def)
  show "\<exists>pre fo post. files s = pre @ fo # post \<and> id_f fo = fileId
         \<and> (\<forall>x \<in> set pre. id_f x \<noteq> fileId)
         \<and> removeFile opts s fileId
             = (s\<lparr>files := pre @ post\<rparr>, if onFileRemoved opts then [FileRemoved (file_f fo)] else [])"
    using sp rm by blast
  show "Suc (length (files (fst (removeFile opts s fileId)))) = length (files s)"
    unfolding rm by (simp add: sp(1))
next
  assume "\<forall>x \<in> set (files s). id_f x \<noteq> fileId"
  then have "findIndex (\<lambda>f. id_f f = fileId) (files s) = - 1"
    by (rule findIndex_absent)
  then show "removeFile opts s fileId = (s, [])"
    by (simp add: removeFile_def)
qed

theorem removeFile_first_match_witness:
  "(\<exists>x \<in> set (files three_files). id_f x = 2)
   \<and> removeFile jpeg_opts three_files 2
       = (\<lparr>files = [entry ''a'' 1 False, entry ''c'' 3 False], uploading = False\<rparr>,
          [FileRemoved (jpeg ''b'')])
   \<and> 7 \<notin> set (map id_f (files three_files))
   \<and> removeFile jpeg_opts three_files 7 = (three_files, [])"
  using removeFile_first_match [of three_files 2 jpeg_opts]
    removeFile_first_match [of three_files 7 jpeg_opts]
  by (simp add: three_files_def entry_def jpeg_opts_def removeFile_def)

text \<open>
  Claim C7. \<open>clear\<close> leaves the tracked list empty in every widget state, whether
  \<open>uploading\<close> is set or not, and calls no hook: no removal notification is fired.
\<close>

theorem clear_empties:
  "files (fst (clear s)) = [] \<and> uploading (fst (clear s)) = uploading s \<and> snd (clear s) = []
   \<and> getFiles (fst (clear s)) = []"
  by (simp add: clear_def getFiles_def)

section \<open>The guard of the upload run, and the loop by entries\<close>

text \<open>
  Claim C8. \<open>startUpload\<close> without a configured upload function, or while \<open>uploading\<close>
  is set, returns at once: the widget state is unchanged and no hook is called.
\<close>

theorem startUpload_guard:
  assumes "onUpload opts = None \<or> uploading s"
  shows "startUpload opts s env = (s, [], env, None)"
  using assms by (auto simp: startUpload_def split: option.splits)

theorem startUpload_guard_witness:
  "(onUpload flaky_opts = None \<or> uploading (three_files\<lparr>uploading := True\<rparr>))
   \<and> startUpload flaky_opts (three_files\<lparr>uploading := True\<rparr>) 0
       = (three_files\<lparr>uploading := True\<rparr>, [], 0, None)
   \<and> (onUpload jpeg_opts = None \<or> uploading three_files)
   \<and> startUpload jpeg_opts three_files 0 = (three_files, [], 0, None)"
  using startUpload_guard [of flaky_opts "three_files\<lparr>uploading := True\<rparr>" 0]
    startUpload_guard [of jpeg_opts three_files 0]
  by (simp add: jpeg_opts_def three_files_def)

lemma upload_entries_length:
  "upload_entries opts up fos env = (r, fos', ev, env') \<Longrightarrow> length fos' = length fos"
  by (induction fos arbitrary: env r fos' ev env')
     (auto split: if_splits prod.splits option.splits)

lemma uploadLoop_upload_entries:
  "uploadLoop opts up i s env =
     (case upload_entries opts up (drop i (files s)) env of
        (r, fos', ev, env') \<Rightarrow> (r, s\<lparr>files := take i (files s) @ fos'\<rparr>, ev, env'))"
proof (induction opts up i s env rule: uploadLoop.induct)
  case (1 opts up i s env)
  show ?case
  proof (cases "i < length (files s)")
    case False
    then show ?thesis by (simp add: uploadLoop.simps [of opts up i s env])
  next
    case True
    then have dr: "drop i (files s) = files s ! i # drop (Suc i) (files s)"
      by (simp add: Cons_nth_drop_Suc)
    show ?thesis
    proof (cases "uploaded (files s ! i)")
      case u: True
      obtain r fos' ev env' where sp:
        "upload_entries opts up (drop (Suc i) (files s)) env = (r, fos', ev, env')"
        by (cases "upload_entries opts up (drop (Suc i) (files s)) env") auto
      have "take i (files s) @ files s ! i # fos' = take (Suc i) (files s) @ fos'"
        using True by (simp add: take_Suc_conv_app_nth)
      then show ?thesis
        using "1.IH"(1) [OF True refl u] True u sp
        by (simp add: uploadLoop.simps [of opts up i s env] dr)
    next
      case u: False
      obtain r fo' ev env' where uf: "uploadFile opts up (files s ! i) env = (r, fo', ev, env')"
        by (cases "uploadFile opts up (files s ! i) env") auto
      show ?thesis
      proof (cases r)
        case (Some err)
        have "(files s)[i := fo'] = take i (files s) @ fo' # drop (Suc i) (files s)"
          using True by (simp add: upd_conv_take_nth_drop)
        then show ?thesis
          using True u uf Some by (simp add: uploadLoop.simps [of opts up i s env] dr)
      next
        case None
        let ?s = "s\<lparr>files := (files s)[i := fo']\<rparr>"
        obtain r2 fos' ev2 env2 where sp:
          "upload_entries opts up (drop (Suc i) (files s)) env' = (r2, fos', ev2, env2)"
          by (cases "upload_entries opts up (drop (Suc i) (files s)) env'") auto
        have d: "drop (Suc i) (files ?s) = drop (Suc i) (files s)"
          by simp
        have t: "take (Suc i) (files ?s) = take i (files s) @ [fo']"
          using True by (simp add: take_Suc_conv_app_nth)
        have uf': "(None, fo', ev, env') = uploadFile opts up (files s ! i) env"
          using uf None by simp
        have ih: "uploadLoop opts up (Suc i) ?s env' =
            (r2, s\<lparr>files := take i (files s) @ fo' # fos'\<rparr>, ev2, env2)"
          using "1.IH"(2) [OF True refl u uf' refl refl refl] sp
          unfolding d t by simp
        show ?thesis
          using True u uf None sp ih
          by (simp add: uploadLoop.simps [of opts up i s env] dr)
      qed
    qed
  qed
qed

section \<open>The upload run: failure, completion, progress\<close>

lemma progress_calls_eq:
  "progress_calls opts fo ps =
     (if ps = [] then fo else fo\<lparr>progress := last ps\<rparr>,
      if onUploadProgress opts then map (UploadProgress (file_f fo)) ps else [])"
  by (induction ps arbitrary: fo) (simp_all add: progressCallback_def)

lemma uploadFile_eq:
  "uploadFile opts up fo env =
     (case up env (file_f fo) of ((ps, out), env') \<Rightarrow>
        (case out of Resolved \<Rightarrow> None | Rejected err \<Rightarrow> Some err,
         (if ps = [] then fo else fo\<lparr>progress := last ps\<rparr>)\<lparr>uploaded := (out = Resolved) \<or> uploaded fo\<rparr>,
         Upload (file_f fo) # (if onUploadProgress opts then map (UploadProgress (file_f fo)) ps else []),
         env'))"
  by (simp add: uploadFile_def progress_calls_eq split: prod.splits settled.splits)

lemma progress_events_obs [simp]:
  "upload_calls (map (UploadProgress f) ps) = []"
  "error_reports (map (UploadProgress f) ps) = []"
  "uploads_complete (map (UploadProgress f) ps) = []"
  "files_added (map (UploadProgress f) ps) = []"
  "files_removed (map (UploadProgress f) ps) = []"
  "progress_reports (map (UploadProgress f) ps) = map (Pair f) ps"
  by (induction ps) simp_all

lemma uploadFile_facts:
  assumes "uploadFile opts up fo env = (r, fo', ev, env')"
  shows "file_f fo' = file_f fo" and "id_f fo' = id_f fo"
    and "upload_calls ev = [file_f fo]" and "error_reports ev = []"
    and "uploads_complete ev = []"
    and "r = None \<Longrightarrow> uploaded fo'"
    and "r = Some err \<Longrightarrow> uploaded fo' = uploaded fo"
    and "r = Some err \<Longrightarrow> snd (fst (up env (file_f fo))) = Rejected err"
    and "progress fo' = (if fst (fst (up env (file_f fo))) = [] then progress fo
                         else last (fst (fst (up env (file_f fo)))))"
    and "progress_reports ev =
           (if onUploadProgress opts then map (Pair (file_f fo)) (fst (fst (up env (file_f fo)))) else [])"
  using assms
  by (auto simp: uploadFile_eq split: prod.splits settled.splits if_splits)

lemma upload_entries_frame:
  "upload_entries opts up fos env = (r, fos', ev, env') \<Longrightarrow>
     map file_f fos' = map file_f fos \<and> map id_f fos' = map id_f fos
     \<and> error_reports ev = [] \<and> uploads_complete ev = []"
proof (induction fos arbitrary: env r fos' ev env')
  case Nil
  then show ?case by simp
next
  case (Cons fo rest)
  show ?case
  proof (cases "uploaded fo")
    case True
    with Cons.prems Cons.IH show ?thesis
      by (auto split: prod.splits)
  next
    case False
    obtain r1 fo1 ev1 env1 where uf: "uploadFile opts up fo env = (r1, fo1, ev1, env1)"
      by (cases "uploadFile opts up fo env") auto
    note f = uploadFile_facts [OF uf]
    show ?thesis
    proof (cases r1)
      case (Some e)
      with Cons.prems False uf f show ?thesis by auto
    next
      case None
      obtain r2 rest2 ev2 env2 where ue: "upload_entries opts up rest env1 = (r2, rest2, ev2, env2)"
        by (cases "upload_entries opts up rest env1") auto
      from Cons.IH [OF ue] Cons.prems False uf None ue f show ?thesis by auto
    qed
  qed
qed

lemma upload_entries_success:
  "upload_entries opts up fos env = (None, fos', ev, env') \<Longrightarrow>
     (\<forall>x \<in> set fos'. uploaded x)
     \<and> upload_calls ev = map file_f (filter (\<lambda>x. \<not> uploaded x) fos)"
proof (induction fos arbitrary: env fos' ev env')
  case Nil
  then show ?case by simp
next
  case (Cons fo rest)
  show ?case
  proof (cases "uploaded fo")
    case True
    with Cons.prems Cons.IH show ?thesis
      by (auto split: prod.splits)
  next
    case False
    obtain r1 fo1 ev1 env1 where uf: "uploadFile opts up fo env = (r1, fo1, ev1, env1)"
      by (cases "uploadFile opts up fo env") auto
    note f = uploadFile_facts [OF uf]
    show ?thesis
    proof (cases r1)
      case (Some e)
      with Cons.prems False uf show ?thesis by auto
    next
      case None
      obtain r2 rest2 ev2 env2 where ue: "upload_entries opts up rest env1 = (r2, rest2, ev2, env2)"
        by (cases "upload_entries opts up rest env1") auto
      have r2: "r2 = None" using Cons.prems False uf None ue by simp
      from Cons.IH [OF ue [unfolded r2]] Cons.prems False uf None ue f show ?thesis by auto
    qed
  qed
qed

lemma upload_entries_failure:
  "upload_entries opts up fos env = (Some err, fos', ev, env') \<Longrightarrow>
     \<exists>pre fo post pre' fo' e.
        fos = pre @ fo # post \<and> fos' = pre' @ fo' # post \<and> length pre' = length pre
        \<and> \<not> uploaded fo \<and> \<not> uploaded fo' \<and> (\<forall>x \<in> set pre'. uploaded x)
        \<and> snd (fst (up e (file_f fo))) = Rejected err
        \<and> upload_calls ev = map file_f (filter (\<lambda>x. \<not> uploaded x) pre) @ [file_f fo]"
proof (induction fos arbitrary: env fos' ev env')
  case Nil
  then show ?case by simp
next
  case (Cons fo rest)
  show ?case
  proof (cases "uploaded fo")
    case True
    obtain r2 rest2 ev2 env2 where ue: "upload_entries opts up rest env = (r2, rest2, ev2, env2)"
      by (cases "upload_entries opts up rest env") auto
    have r2: "r2 = Some err" and res: "fos' = fo # rest2" "ev = ev2"
      using Cons.prems True ue by simp_all
    from Cons.IH [OF ue [unfolded r2]] obtain pre x post pre' x' e where
      d: "rest = pre @ x # post" "rest2 = pre' @ x' # post" "length pre' = length pre"
         "\<not> uploaded x" "\<not> uploaded x'" "\<forall>y \<in> set pre'. uploaded y"
         "snd (fst (up e (file_f x))) = Rejected err"
         "upload_calls ev2 = map file_f (filter (\<lambda>x. \<not> uploaded x) pre) @ [file_f x]"
      by blast
    show ?thesis
      apply (rule exI [of _ "fo # pre"], rule exI [of _ x], rule exI [of _ post])
      apply (rule exI [of _ "fo # pre'"], rule exI [of _ x'], rule exI [of _ e])
      using d res True by simp
  next
    case False
    obtain r1 fo1 ev1 env1 where uf: "uploadFile opts up fo env = (r1, fo1, ev1, env1)"
      by (cases "uploadFile opts up fo env") auto
    note f = uploadFile_facts [OF uf]
    show ?thesis
    proof (cases r1)
      case (Some e1)
      have res: "e1 = err" "fos' = fo1 # rest" "ev = ev1"
        using Cons.prems False uf Some by simp_all
      show ?thesis
        apply (rule exI [of _ "[]"], rule exI [of _ fo], rule exI [of _ rest])
        apply (rule exI [of _ "[]"], rule exI [of _ fo1], rule exI [of _ env])
        using res False f(3) f(7) [of err] f(8) [of err] Some by simp
    next
      case None
      obtain r2 rest2 ev2 env2 where ue: "upload_entries opts up rest env1 = (r2, rest2, ev2, env2)"
        by (cases "upload_entries opts up rest env1") auto
      have r2: "r2 = Some err" and res: "fos' = fo1 # rest2" "ev = ev1 @ ev2"
        using Cons.prems False uf None ue by simp_all
      from Cons.IH [OF ue [unfolded r2]] obtain pre x post pre' x' e where
        d: "rest = pre @ x # post" "rest2 = pre' @ x' # post" "length pre' = length pre"
           "\<not> uploaded x" "\<not> uploaded x'" "\<forall>y \<in> set pre'. uploaded y"
           "snd (fst (up e (file_f x))) = Rejected err"
           "upload_calls ev2 = map file_f (filter (\<lambda>x. \<not> uploaded x) pre) @ [file_f x]"
        by blast
      show ?thesis
        apply (rule exI [of _ "fo # pre"], rule exI [of _ x], rule exI [of _ post])
        apply (rule exI [of _ "fo1 # pre'"], rule exI [of _ x'], rule exI [of _ e])
        using d res False f(3) f(6) None by simp
    qed
  qed
qed

lemma upload_entries_calls_prefix:
  "upload_entries opts up fos env = (r, fos', ev, env') \<Longrightarrow>
     prefix (upload_calls ev) (map file_f (filter (\<lambda>x. \<not> uploaded x) fos))"
proof (cases r)
  case None
  assume "upload_entries opts up fos env = (r, fos', ev, env')"
  with None upload_entries_success [of opts up fos env fos' ev env'] show ?thesis by simp
next
  case (Some err)
  assume "upload_entries opts up fos env = (r, fos', ev, env')"
  with Some upload_entries_failure [of opts up fos env err fos' ev env']
  obtain pre fo post where "fos = pre @ fo # post" "\<not> uploaded fo"
    "upload_calls ev = map file_f (filter (\<lambda>x. \<not> uploaded x) pre) @ [file_f fo]"
    by blast
  then show ?thesis by (simp add: prefix_def)
qed

lemma startUpload_eq:
  assumes "onUpload opts = Some up" and "\<not> uploading s"
  shows "startUpload opts s env =
     (case upload_entries opts up (files s) env of
        (None, fos', ev, env') \<Rightarrow>
          (s\<lparr>files := fos'\<rparr>,
           ev @ (if onUploadComplete opts then [UploadComplete (map file_f fos')] else []),
           env', None)
      | (Some (WithMessage msg), fos', ev, env') \<Rightarrow>
          (s\<lparr>files := fos'\<rparr>, ev @ showError opts (UploadFailed msg), env', None)
      | (Some NoValue, fos', ev, env') \<Rightarrow>
          (s\<lparr>files := fos'\<rparr>, ev, env', Some TypeError))"
  using assms
  by (cases s)
     (simp add: startUpload_def uploadLoop_upload_entries
        split: prod.splits option.splits reason.splits)

lemma uploadLoop_outcome:
  "fst (uploadLoop opts up 0 (s\<lparr>uploading := True\<rparr>) env)
     = fst (upload_entries opts up (files s) env)"
  by (simp add: uploadLoop_upload_entries split: prod.splits)

lemma startUpload_upload_calls:
  assumes "onUpload opts = Some up" and "\<not> uploading s"
    and "upload_entries opts up (files s) env = (r, fos', ev, env')"
  shows "upload_calls (fst (snd (startUpload opts s env))) = upload_calls ev"
    and "files (fst (startUpload opts s env)) = fos'"
    and "uploading (fst (startUpload opts s env)) = False"
  using assms(2,3)
  by (simp_all add: startUpload_eq [OF assms(1,2)] split: option.splits reason.splits)

lemma upload_entries_first_pending:
  "\<forall>x \<in> set pre. uploaded x \<Longrightarrow> \<not> uploaded fo
   \<Longrightarrow> upload_entries opts up (pre @ fo # post) env = (r, fos', ev, env')
   \<Longrightarrow> \<exists>cs. upload_calls ev = file_f fo # cs
          \<and> prefix cs (map file_f (filter (\<lambda>x. \<not> uploaded x) post))"
proof (induction pre arbitrary: fos')
  case Nil
  obtain r1 fo1 ev1 env1 where uf: "uploadFile opts up fo env = (r1, fo1, ev1, env1)"
    by (cases "uploadFile opts up fo env") auto
  note f = uploadFile_facts(3) [OF uf]
  show ?case
  proof (cases r1)
    case (Some e)
    then have "ev = ev1"
      using Nil.prems uf by simp
    then show ?thesis using f by simp
  next
    case None
    obtain r2 rest2 ev2 env2 where ue: "upload_entries opts up post env1 = (r2, rest2, ev2, env2)"
      by (cases "upload_entries opts up post env1") auto
    have "ev = ev1 @ ev2"
      using Nil.prems uf None ue by simp
    then show ?thesis
      using f upload_entries_calls_prefix [OF ue] by simp
  qed
next
  case (Cons x pre)
  obtain r2 rest2 ev2 env2 where
    ue: "upload_entries opts up (pre @ fo # post) env = (r2, rest2, ev2, env2)"
    by (cases "upload_entries opts up (pre @ fo # post) env") auto
  have eq: "r2 = r" "ev2 = ev" "env2 = env'"
    using Cons.prems ue by simp_all
  have "\<forall>x \<in> set pre. uploaded x"
    using Cons.prems(1) by simp
  from Cons.IH [OF this Cons.prems(2) ue [unfolded eq]] show ?case .
qed

lemma upload_entries_rejecting:
  assumes "\<forall>x \<in> set pre. \<not> uploaded x \<longrightarrow> (\<forall>e. snd (fst (up e (file_f x))) = Resolved)"
    and "\<not> uploaded fo"
    and "\<forall>e. snd (fst (up e (file_f fo))) = Rejected r"
  shows "\<exists>pre' fo' ev env'.
      upload_entries opts up (pre @ fo # post) env = (Some r, pre' @ fo' # post, ev, env')
    \<and> length pre' = length pre \<and> (\<forall>x \<in> set pre'. uploaded x) \<and> \<not> uploaded fo'
    \<and> upload_calls ev = map file_f (filter (\<lambda>x. \<not> uploaded x) pre) @ [file_f fo]"
  using assms(1)
proof (induction pre arbitrary: env)
  case Nil
  obtain r1 fo1 ev1 env1 where uf: "uploadFile opts up fo env = (r1, fo1, ev1, env1)"
    by (cases "uploadFile opts up fo env") auto
  have r1: "r1 = Some r"
    using uf spec [OF assms(3), of env]
    by (auto simp: uploadFile_eq split: prod.splits settled.splits)
  note f = uploadFile_facts(3,7) [OF uf]
  show ?case
    apply (rule exI [of _ "[]"], rule exI [of _ fo1], rule exI [of _ ev1], rule exI [of _ env1])
    using uf r1 f(1) f(2) [of r] assms(2) by simp
next
  case (Cons x pre)
  have rest: "\<forall>x \<in> set pre. \<not> uploaded x \<longrightarrow> (\<forall>e. snd (fst (up e (file_f x))) = Resolved)"
    using Cons.prems by simp
  show ?case
  proof (cases "uploaded x")
    case True
    from Cons.IH [OF rest, of env] obtain pre' fo' ev env' where
      d: "upload_entries opts up (pre @ fo # post) env = (Some r, pre' @ fo' # post, ev, env')"
         "length pre' = length pre" "\<forall>x \<in> set pre'. uploaded x" "\<not> uploaded fo'"
         "upload_calls ev = map file_f (filter (\<lambda>x. \<not> uploaded x) pre) @ [file_f fo]"
      by blast
    show ?thesis
      apply (rule exI [of _ "x # pre'"], rule exI [of _ fo'], rule exI [of _ ev], rule exI [of _ env'])
      using d True by simp
  next
    case False
    obtain r1 x1 ev1 env1 where uf: "uploadFile opts up x env = (r1, x1, ev1, env1)"
      by (cases "uploadFile opts up x env") auto
    have "snd (fst (up env (file_f x))) = Resolved"
      using Cons.prems False by auto
    then have r1: "r1 = None"
      using uf by (auto simp: uploadFile_eq split: prod.splits settled.splits)
    note f = uploadFile_facts(3,6) [OF uf]
    from Cons.IH [OF rest, of env1] obtain pre' fo' ev env' where
      d: "upload_entries opts up (pre @ fo # post) env1 = (Some r, pre' @ fo' # post, ev, env')"
         "length pre' = length pre" "\<forall>x \<in> set pre'. uploaded x" "\<not> uploaded fo'"
         "upload_calls ev = map file_f (filter (\<lambda>x. \<not> uploaded x) pre) @ [file_f fo]"
      by blast
    show ?thesis
      apply (rule exI [of _ "x1 # pre'"], rule exI [of _ fo'], rule exI [of _ "ev1 @ ev"])
      apply (rule exI [of _ env'])
      using d False uf r1 f by simp
  qed
qed

text \<open>
  What a run does when the upload function rejects. Let the tracked list be the
  entries \<open>pre\<close>, a pending entry \<open>fo\<close> and the entries \<open>post\<close>, let the upload function
  resolve for the pending entries of \<open>pre\<close> and reject with reason \<open>r\<close> for \<open>fo\<close>. Then
  the upload function is called for the pending entries of \<open>pre\<close> and for \<open>fo\<close>, and for
  no entry of \<open>post\<close>, which is left as it was; the entries before \<open>fo\<close> end up marked
  uploaded and \<open>fo\<close> does not; no completion is notified and \<open>uploading\<close> is reset. When
  the reason has a value, the failure goes to \<open>showError\<close> as the last event of the run.
  When it has none, nothing is reported and a \<open>TypeError\<close> leaves \<open>startUpload\<close>. A
  later \<open>startUpload\<close> calls the upload function for \<open>fo\<close> first and then only for
  pending entries of \<open>post\<close>, in tracked order.
\<close>

lemma startUpload_halts_at_rejection:
  assumes "onUpload opts = Some up" and "\<not> uploading s"
    and "files s = pre @ fo # post" and "\<not> uploaded fo"
    and "\<forall>x \<in> set pre. \<not> uploaded x \<longrightarrow> (\<forall>e. snd (fst (up e (file_f x))) = Resolved)"
    and "\<forall>e. snd (fst (up e (file_f fo))) = Rejected r"
  shows "\<exists>pre' fo'.
      files (fst (startUpload opts s env)) = pre' @ fo' # post
    \<and> map file_f pre' = map file_f pre \<and> file_f fo' = file_f fo
    \<and> (\<forall>x \<in> set pre'. uploaded x) \<and> \<not> uploaded fo'
    \<and> upload_calls (fst (snd (startUpload opts s env)))
        = map file_f (filter (\<lambda>x. \<not> uploaded x) pre) @ [file_f fo]
    \<and> uploads_complete (fst (snd (startUpload opts s env))) = []
    \<and> \<not> uploading (fst (startUpload opts s env))
    \<and> (case r of
          WithMessage msg \<Rightarrow>
            (\<exists>ev. fst (snd (startUpload opts s env)) = ev @ showError opts (UploadFailed msg))
            \<and> error_reports (fst (snd (startUpload opts s env))) = [UploadFailed msg]
            \<and> snd (snd (snd (startUpload opts s env))) = None
        | NoValue \<Rightarrow>
            error_reports (fst (snd (startUpload opts s env))) = []
            \<and> snd (snd (snd (startUpload opts s env))) = Some TypeError)
    \<and> (\<forall>env2. \<exists>cs.
          upload_calls (fst (snd (startUpload opts (fst (startUpload opts s env)) env2)))
            = file_f fo # cs
          \<and> prefix cs (map file_f (filter (\<lambda>x. \<not> uploaded x) post)))"
proof -
  from upload_entries_rejecting [OF assms(5,4,6), of opts post env]
  obtain pre' fo' ev env' where
    d: "upload_entries opts up (pre @ fo # post) env = (Some r, pre' @ fo' # post, ev, env')"
       "length pre' = length pre" "\<forall>x \<in> set pre'. uploaded x" "\<not> uploaded fo'"
       "upload_calls ev = map file_f (filter (\<lambda>x. \<not> uploaded x) pre) @ [file_f fo]"
    by blast
  have ue: "upload_entries opts up (files s) env = (Some r, pre' @ fo' # post, ev, env')"
    using d(1) assms(3) by simp
  note fr = upload_entries_frame [OF ue]
  have mf: "map file_f pre' = map file_f pre \<and> file_f fo' = file_f fo"
    using fr d(2) assms(3) by simp
  let ?s' = "s\<lparr>files := pre' @ fo' # post\<rparr>"
  have su: "startUpload opts s env =
      (case r of
         WithMessage msg \<Rightarrow> (?s', ev @ showError opts (UploadFailed msg), env', None)
       | NoValue \<Rightarrow> (?s', ev, env', Some TypeError))"
    using ue by (simp add: startUpload_eq [OF assms(1,2)] split: reason.splits)
  have st: "fst (startUpload opts s env) = ?s'"
    unfolding su by (simp split: reason.splits)
  have idle: "\<not> uploading ?s'"
    using assms(2) by simp
  have retry: "\<exists>cs. upload_calls (fst (snd (startUpload opts ?s' env2))) = file_f fo # cs
      \<and> prefix cs (map file_f (filter (\<lambda>x. \<not> uploaded x) post))" for env2
  proof -
    obtain r2 fos2 ev2 env2' where ue2:
      "upload_entries opts up (pre' @ fo' # post) env2 = (r2, fos2, ev2, env2')"
      by (cases "upload_entries opts up (pre' @ fo' # post) env2") auto
    have "upload_calls (fst (snd (startUpload opts ?s' env2))) = upload_calls ev2"
      by (rule startUpload_upload_calls(1) [OF assms(1) idle]) (use ue2 in simp)
    then show ?thesis
      using upload_entries_first_pending [OF d(3,4) ue2] mf by simp
  qed
  show ?thesis
    apply (rule exI [of _ pre'], rule exI [of _ fo'])
    unfolding st using d(3,4,5) mf fr retry assms(2)
    by (simp add: su split: reason.splits)
qed

text \<open>
  The scenario with three tracked files: the upload function resolves for \<open>a\<close>,
  rejects for \<open>b\<close> with an \<^verbatim>\<open>Error\<close>, and is never called for \<open>c\<close>. Then \<open>a\<close> is marked
  uploaded, \<open>c\<close> is untouched, the error is reported, and the next \<open>startUpload\<close> calls
  the upload function for \<open>b\<close> and \<open>c\<close> only.
\<close>

lemma startUpload_three_files_retry:
  "startUpload flaky_opts three_files 0
     = (\<lparr>files = [(entry ''a'' 1 True)\<lparr>progress := 100\<rparr>, (entry ''b'' 2 False)\<lparr>progress := 50\<rparr>,
                  entry ''c'' 3 False],
         uploading = False\<rparr>,
        [Upload (jpeg ''a''), UploadProgress (jpeg ''a'') 50, UploadProgress (jpeg ''a'') 100,
         Upload (jpeg ''b''), UploadProgress (jpeg ''b'') 50,
         Error (UploadFailed ''network down'')],
        1, None)
   \<and> upload_calls (fst (snd (startUpload flaky_opts
        \<lparr>files = [(entry ''a'' 1 True)\<lparr>progress := 100\<rparr>, (entry ''b'' 2 False)\<lparr>progress := 50\<rparr>,
                  entry ''c'' 3 False],
         uploading = False\<rparr> 1)))
       = [jpeg ''b'', jpeg ''c'']"
  by (simp add: startUpload_def uploadLoop_upload_entries flaky_opts_def jpeg_opts_def
      three_files_def entry_def jpeg_def flaky_upload_def uploadFile_def progressCallback_def
      showError_def)

text \<open>
  Claim C1. The claim has every failure of the upload function reported through the
  error hook. The code reports it from \<^verbatim>\<open>catch\<close> with the text of \<^verbatim>\<open>error.message\<close>, and
  misses the rejection without a reason: with three tracked files, an upload function
  that resolves for \<open>a\<close> and rejects for \<open>b\<close> as \<^verbatim>\<open>Promise.reject()\<close> does, and
  \<open>onError\<close> configured, the run halts at \<open>b\<close>, marks \<open>a\<close> uploaded, leaves \<open>c\<close> untouched
  and resets \<open>uploading\<close>, but no error is reported, neither to \<open>onError\<close> nor to the
  console, and a \<open>TypeError\<close> leaves \<open>startUpload\<close>.
\<close>

theorem startUpload_bare_rejection_unreported:
  "onUpload bare_reject_opts = Some bare_reject_upload
   \<and> snd (fst (bare_reject_upload 0 (jpeg ''b''))) = Rejected NoValue
   \<and> onError bare_reject_opts
   \<and> startUpload bare_reject_opts three_files 0
       = (\<lparr>files = [(entry ''a'' 1 True)\<lparr>progress := 100\<rparr>, (entry ''b'' 2 False)\<lparr>progress := 50\<rparr>,
                    entry ''c'' 3 False],
           uploading = False\<rparr>,
          [Upload (jpeg ''a''), UploadProgress (jpeg ''a'') 50, UploadProgress (jpeg ''a'') 100,
           Upload (jpeg ''b''), UploadProgress (jpeg ''b'') 50],
          0, Some TypeError)
   \<and> error_reports (fst (snd (startUpload bare_reject_opts three_files 0))) = []"
  by (simp add: startUpload_def uploadLoop_upload_entries bare_reject_opts_def jpeg_opts_def
      three_files_def entry_def jpeg_def bare_reject_upload_def uploadFile_def
      progressCallback_def showError_def)

text \<open>
  Claim C5. When a \<open>startUpload\<close> run leaves its loop without an error,
  \<open>onUploadComplete\<close>, when configured, is called exactly once, as the last event of
  the run, with the raw handles of all tracked entries; no error is reported, the
  upload function was called for exactly the entries that were pending, every entry
  is marked uploaded, and \<open>uploading\<close> is reset.
\<close>

theorem startUpload_success_completes:
  assumes "onUpload opts = Some up" and "\<not> uploading s"
    and "fst (uploadLoop opts up 0 (s\<lparr>uploading := True\<rparr>) env) = None"
  shows "uploads_complete (fst (snd (startUpload opts s env)))
           = (if onUploadComplete opts then [getFiles (fst (startUpload opts s env))] else [])
       \<and> (\<exists>ev. fst (snd (startUpload opts s env))
                 = ev @ (if onUploadComplete opts
                         then [UploadComplete (getFiles (fst (startUpload opts s env)))] else [])
               \<and> uploads_complete ev = [])
       \<and> getFiles (fst (startUpload opts s env)) = getFiles s
       \<and> error_reports (fst (snd (startUpload opts s env))) = []
       \<and> upload_calls (fst (snd (startUpload opts s env)))
           = map file_f (filter (\<lambda>x. \<not> uploaded x) (files s))
       \<and> getUploadedFiles (fst (startUpload opts s env)) = getFiles s
       \<and> \<not> uploading (fst (startUpload opts s env))"
proof -
  obtain r fos' ev env' where ue: "upload_entries opts up (files s) env = (r, fos', ev, env')"
    by (cases "upload_entries opts up (files s) env") auto
  have r: "r = None"
    using assms(3) ue by (simp add: uploadLoop_outcome)
  have su: "startUpload opts s env =
      (s\<lparr>files := fos'\<rparr>,
       ev @ (if onUploadComplete opts then [UploadComplete (map file_f fos')] else []),
       env', None)"
    using ue r by (simp add: startUpload_eq [OF assms(1,2)])
  note fr = upload_entries_frame [OF ue]
  note sc = upload_entries_success [OF ue [unfolded r]]
  have all: "filter uploaded fos' = fos'"
    using sc by simp
  have ex: "\<exists>ev0. ev @ (if onUploadComplete opts then [UploadComplete (map file_f fos')] else [])
         = ev0 @ (if onUploadComplete opts then [UploadComplete (map file_f fos')] else [])
       \<and> uploads_complete ev0 = []"
    using fr by blast
  show ?thesis
    unfolding su using fr sc all ex assms(2)
    by (simp add: getFiles_def getUploadedFiles_def)
qed

theorem startUpload_success_completes_witness:
  "onUpload flaky_opts = Some flaky_upload
   \<and> \<not> uploading (three_files\<lparr>files := tl (files three_files)\<rparr>)
   \<and> fst (uploadLoop flaky_opts flaky_upload 0
          (three_files\<lparr>files := tl (files three_files), uploading := True\<rparr>) 1) = None
   \<and> onUploadComplete flaky_opts
   \<and> uploads_complete (fst (snd (startUpload flaky_opts
          (three_files\<lparr>files := tl (files three_files)\<rparr>) 1)))
       = [[jpeg ''b'', jpeg ''c'']]
   \<and> fst (snd (startUpload flaky_opts (three_files\<lparr>files := tl (files three_files)\<rparr>) 1))
       = [Upload (jpeg ''b''), UploadProgress (jpeg ''b'') 50, UploadProgress (jpeg ''b'') 100,
          Upload (jpeg ''c''), UploadProgress (jpeg ''c'') 50, UploadProgress (jpeg ''c'') 100,
          UploadComplete [jpeg ''b'', jpeg ''c'']]"
proof -
  let ?s = "three_files\<lparr>files := tl (files three_files)\<rparr>"
  have h: "onUpload flaky_opts = Some flaky_upload" "\<not> uploading ?s"
    by (simp_all add: flaky_opts_def three_files_def)
  have l: "fst (uploadLoop flaky_opts flaky_upload 0 (?s\<lparr>uploading := True\<rparr>) 1) = None"
    by (simp add: uploadLoop_upload_entries flaky_opts_def jpeg_opts_def three_files_def entry_def
        jpeg_def flaky_upload_def uploadFile_def progressCallback_def)
  have c: "onUploadComplete flaky_opts"
    by (simp add: flaky_opts_def jpeg_opts_def)
  have v: "fst (snd (startUpload flaky_opts ?s 1))
       = [Upload (jpeg ''b''), UploadProgress (jpeg ''b'') 50, UploadProgress (jpeg ''b'') 100,
          Upload (jpeg ''c''), UploadProgress (jpeg ''c'') 50, UploadProgress (jpeg ''c'') 100,
          UploadComplete [jpeg ''b'', jpeg ''c'']]"
    by (simp add: startUpload_def uploadLoop_upload_entries flaky_opts_def jpeg_opts_def
        three_files_def entry_def jpeg_def flaky_upload_def uploadFile_def progressCallback_def
        showError_def)
  note t = startUpload_success_completes [OF h l]
  have g: "getFiles (fst (startUpload flaky_opts ?s 1)) = getFiles ?s"
    using t by blast
  have g': "getFiles ?s = [jpeg ''b'', jpeg ''c'']"
    by (simp add: getFiles_def three_files_def entry_def)
  have "uploads_complete (fst (snd (startUpload flaky_opts ?s 1)))
      = (if onUploadComplete flaky_opts then [getFiles (fst (startUpload flaky_opts ?s 1))] else [])"
    using t by blast
  then have u: "uploads_complete (fst (snd (startUpload flaky_opts ?s 1)))
      = [[jpeg ''b'', jpeg ''c'']]"
    unfolding g g' using c by (simp only: if_True)
  show ?thesis
    by (intro conjI) (rule h(1) h(2) l c u v)+
qed

lemma upload_entries_progress_range:
  assumes "\<forall>e f. \<forall>p \<in> set (fst (fst (up e f))). 0 \<le> p \<and> p \<le> 100"
  shows "upload_entries opts up fos env = (r, fos', ev, env')
     \<Longrightarrow> \<forall>x \<in> set fos. 0 \<le> progress x \<and> progress x \<le> 100
     \<Longrightarrow> \<forall>x \<in> set fos'. 0 \<le> progress x \<and> progress x \<le> 100"
proof (induction fos arbitrary: env r fos' ev env')
  case Nil
  then show ?case by simp
next
  case (Cons fo rest)
  show ?case
  proof (cases "uploaded fo")
    case True
    with Cons.prems Cons.IH show ?thesis
      by (auto split: prod.splits)
  next
    case False
    obtain r1 fo1 ev1 env1 where uf: "uploadFile opts up fo env = (r1, fo1, ev1, env1)"
      by (cases "uploadFile opts up fo env") auto
    have p1: "0 \<le> progress fo1 \<and> progress fo1 \<le> 100"
    proof (cases "fst (fst (up env (file_f fo))) = []")
      case True
      then show ?thesis
        using uploadFile_facts(9) [OF uf] Cons.prems(2) by simp
    next
      case False
      then have "last (fst (fst (up env (file_f fo)))) \<in> set (fst (fst (up env (file_f fo))))"
        by simp
      then have "0 \<le> last (fst (fst (up env (file_f fo))))
          \<and> last (fst (fst (up env (file_f fo)))) \<le> 100"
        using assms by blast
      then show ?thesis
        using uploadFile_facts(9) [OF uf] False by simp
    qed
    show ?thesis
    proof (cases r1)
      case (Some e)
      with Cons.prems False uf p1 show ?thesis by auto
    next
      case None
      obtain r2 rest2 ev2 env2 where ue: "upload_entries opts up rest env1 = (r2, rest2, ev2, env2)"
        by (cases "upload_entries opts up rest env1") auto
      have "\<forall>x \<in> set rest2. 0 \<le> progress x \<and> progress x \<le> 100"
        using Cons.IH [OF ue] Cons.prems(2) by simp
      with Cons.prems False uf None ue p1 show ?thesis by auto
    qed
  qed
qed

lemma startUpload_progress_range:
  assumes "\<forall>e f. \<forall>p \<in> set (fst (fst (up e f))). 0 \<le> p \<and> p \<le> 100"
    and "onUpload opts = Some up"
    and "\<forall>x \<in> set (files s). 0 \<le> progress x \<and> progress x \<le> 100"
  shows "\<forall>x \<in> set (files (fst (startUpload opts s env))). 0 \<le> progress x \<and> progress x \<le> 100"
proof (cases "uploading s")
  case True
  then show ?thesis using assms(3) by (simp add: startUpload_def assms(2))
next
  case False
  obtain r fos' ev env' where ue: "upload_entries opts up (files s) env = (r, fos', ev, env')"
    by (cases "upload_entries opts up (files s) env") auto
  have "files (fst (startUpload opts s env)) = fos'"
    by (rule startUpload_upload_calls(2) [OF assms(2) False ue])
  then show ?thesis
    using upload_entries_progress_range [OF assms(1) ue assms(3)] by simp
qed

text \<open>
  Claim C9, as amended. The progress callback stores exactly the value it is given in
  the entry and, when \<open>onUploadProgress\<close> is configured, calls it with the entry's raw
  handle and that value; after \<open>uploadFile\<close> the stored progress is the last value the
  upload function reported (the old one when it reported none), and every reported
  value was forwarded in order. Nothing clamps the value: every entry that \<open>addFiles\<close>
  inserts has progress 0, \<open>addFiles\<close> keeps the stored percentages within 0 to 100 when
  they were, and so does \<open>startUpload\<close> provided every value the upload function
  reports is within 0 to 100.
\<close>

theorem progress_forwarded_unclamped:
  "progress (fst (progressCallback opts fo p)) = p
   \<and> fst (progressCallback opts fo p) = fo\<lparr>progress := p\<rparr>
   \<and> progress_reports (snd (progressCallback opts fo p))
       = (if onUploadProgress opts then [(file_f fo, p)] else [])
   \<and> progress (fst (snd (uploadFile opts up fo env)))
       = (if fst (fst (up env (file_f fo))) = [] then progress fo
          else last (fst (fst (up env (file_f fo)))))
   \<and> progress_reports (fst (snd (snd (uploadFile opts up fo env))))
       = (if onUploadProgress opts then map (Pair (file_f fo)) (fst (fst (up env (file_f fo))))
          else [])
   \<and> (\<exists>new. files (fst (addFiles opts idgen s newFiles)) = files s @ new
          \<and> (\<forall>x \<in> set new. progress x = 0))
   \<and> ((\<forall>x \<in> set (files s). 0 \<le> progress x \<and> progress x \<le> 100) \<longrightarrow>
        (\<forall>x \<in> set (files (fst (addFiles opts idgen s newFiles))).
            0 \<le> progress x \<and> progress x \<le> 100))
   \<and> ((\<forall>e f. \<forall>p \<in> set (fst (fst (up e f))). 0 \<le> p \<and> p \<le> 100)
        \<and> onUpload opts = Some up
        \<and> (\<forall>x \<in> set (files s). 0 \<le> progress x \<and> progress x \<le> 100) \<longrightarrow>
        (\<forall>x \<in> set (files (fst (startUpload opts s env))).
            0 \<le> progress x \<and> progress x \<le> 100))"
proof -
  obtain r fo' ev env' where uf: "uploadFile opts up fo env = (r, fo', ev, env')"
    by (cases "uploadFile opts up fo env") auto
  note f = uploadFile_facts(9,10) [OF uf]
  have i: "\<exists>new. files (fst (addFiles opts idgen s newFiles)) = files s @ new
          \<and> (\<forall>x \<in> set new. progress x = 0)"
  proof -
    obtain acc where fs: "files (fst (addFiles opts idgen s newFiles)) = push_files idgen 0 (files s) acc"
      by (simp add: addFiles_fst)
    obtain new where "push_files idgen 0 (files s) acc = files s @ new"
      "\<forall>x \<in> set new. \<not> uploaded x \<and> progress x = 0"
      using push_files_new [of idgen 0 "files s" acc] by blast
    with fs show ?thesis by auto
  qed
  have a: "(\<forall>x \<in> set (files s). 0 \<le> progress x \<and> progress x \<le> 100) \<longrightarrow>
        (\<forall>x \<in> set (files (fst (addFiles opts idgen s newFiles))).
            0 \<le> progress x \<and> progress x \<le> 100)"
  proof
    assume inv: "\<forall>x \<in> set (files s). 0 \<le> progress x \<and> progress x \<le> 100"
    obtain acc where fs: "files (fst (addFiles opts idgen s newFiles)) = push_files idgen 0 (files s) acc"
      by (simp add: addFiles_fst)
    obtain new where "push_files idgen 0 (files s) acc = files s @ new"
      "\<forall>x \<in> set new. \<not> uploaded x \<and> progress x = 0"
      using push_files_new [of idgen 0 "files s" acc] by blast
    with inv fs show "\<forall>x \<in> set (files (fst (addFiles opts idgen s newFiles))).
            0 \<le> progress x \<and> progress x \<le> 100"
      by auto
  qed
  have b: "(\<forall>e f. \<forall>p \<in> set (fst (fst (up e f))). 0 \<le> p \<and> p \<le> 100)
        \<and> onUpload opts = Some up
        \<and> (\<forall>x \<in> set (files s). 0 \<le> progress x \<and> progress x \<le> 100) \<longrightarrow>
        (\<forall>x \<in> set (files (fst (startUpload opts s env))).
            0 \<le> progress x \<and> progress x \<le> 100)"
    using startUpload_progress_range [of up opts s env] by blast
  have c: "progress (fst (progressCallback opts fo p)) = p"
    "fst (progressCallback opts fo p) = fo\<lparr>progress := p\<rparr>"
    "progress_reports (snd (progressCallback opts fo p))
       = (if onUploadProgress opts then [(file_f fo, p)] else [])"
    by (simp_all add: progressCallback_def)
  have d: "progress (fst (snd (uploadFile opts up fo env)))
       = (if fst (fst (up env (file_f fo))) = [] then progress fo
          else last (fst (fst (up env (file_f fo)))))"
    "progress_reports (fst (snd (snd (uploadFile opts up fo env))))
       = (if onUploadProgress opts then map (Pair (file_f fo)) (fst (fst (up env (file_f fo))))
          else [])"
    using f unfolding uf by simp_all
  show ?thesis
    by (intro conjI) (rule a b c d i)+
qed

theorem progress_forwarded_unclamped_witness:
  "(\<forall>e f. list_all (\<lambda>p. 0 \<le> p \<and> p \<le> 100) (fst (fst (flaky_upload e f))))
   \<and> onUpload flaky_opts = Some flaky_upload
   \<and> list_all (\<lambda>x. 0 \<le> progress x \<and> progress x \<le> 100) (files three_files)
   \<and> map progress (files (fst (startUpload flaky_opts three_files 0))) = [100, 50, 0]
   \<and> list_all (\<lambda>x. 0 \<le> progress x \<and> progress x \<le> 100)
        (files (fst (startUpload flaky_opts three_files 0)))
   \<and> list_all (\<lambda>x. 0 \<le> progress x \<and> progress x \<le> 100)
        (files (fst (addFiles flaky_opts (\<lambda>k. real k) three_files [jpeg ''d''])))
   \<and> map progress (files (fst (addFiles flaky_opts (\<lambda>k. real k) three_files [jpeg ''d''])))
       = [0, 0, 0, 0]"
proof -
  have w: "map progress (files (fst (addFiles flaky_opts (\<lambda>k. real k) three_files [jpeg ''d''])))
       = [0, 0, 0, 0]"
    by (simp add: addFiles_def validateFile_def flaky_opts_def jpeg_opts_def three_files_def
        entry_def jpeg_def)
  have h1: "\<forall>e f. \<forall>p \<in> set (fst (fst (flaky_upload e f))). 0 \<le> p \<and> p \<le> 100"
    by (simp add: flaky_upload_def)
  have h2: "onUpload flaky_opts = Some flaky_upload"
    by (simp add: flaky_opts_def)
  have h3: "\<forall>x \<in> set (files three_files). 0 \<le> progress x \<and> progress x \<le> 100"
    by (simp add: three_files_def entry_def)
  have v: "map progress (files (fst (startUpload flaky_opts three_files 0))) = [100, 50, 0]"
    by (simp add: startUpload_def uploadLoop_upload_entries flaky_opts_def jpeg_opts_def
        three_files_def entry_def jpeg_def flaky_upload_def uploadFile_def progressCallback_def
        showError_def)
  from progress_forwarded_unclamped [where opts = flaky_opts and up = flaky_upload
      and s = three_files and idgen = "\<lambda>k. real k" and newFiles = "[jpeg ''d'']" and env = 0]
    h1 h2 h3
  have "(\<forall>x \<in> set (files (fst (addFiles flaky_opts (\<lambda>k. real k) three_files [jpeg ''d'']))).
            0 \<le> progress x \<and> progress x \<le> 100)
      \<and> (\<forall>x \<in> set (files (fst (startUpload flaky_opts three_files 0))).
            0 \<le> progress x \<and> progress x \<le> 100)"
    by blast
  then show ?thesis
    using h1 h2 h3 v w by (simp add: list_all_iff)
qed

text \<open>
  Claim C9 as first stated does not hold: the stored percentage of a tracked entry is
  not always within 0 to 100. An upload function that reports 150 leaves 150 in the
  entry.
\<close>

theorem progress_exceeds_100_counterexample:
  "map progress (files (fst (startUpload overshoot_opts one_file 0))) = [150]
   \<and> \<not> (progress (files (fst (startUpload overshoot_opts one_file 0)) ! 0) \<le> 100)"
  by (simp add: startUpload_def uploadLoop_upload_entries overshoot_opts_def jpeg_opts_def
      one_file_def addFiles_def validateFile_def init_uploader_def jpeg_def
      overshoot_upload_def uploadFile_def progressCallback_def showError_def)

end
